theory Spec2Isabelle
  imports Main "HOL-Library.AList"
begin

section \<open>Python values, exceptions and the randomness source\<close>

text \<open>
  The notebooks handle the values a TOML file can hold (strings, integers, booleans,
  arrays, tables) and Python's \<open>None\<close>. Floats and dates are outside the model, except
  the \<open>NaN\<close> that pandas puts in a cell with no value; the one float computation of the
  notebooks (the normal draw of the \<open>dist\<close> rule) is a parameter.
\<close>

datatype pyval =
    PNone
  | PBool bool
  | PInt int
  | PStr string
  | PList "pyval list"
  | PDict "(string \<times> pyval) list"
  | PNaN

text \<open>The exceptions the modelled code can raise.\<close>

datatype error =
    KeyError string
  | ValueError
  | TypeError
  | IndexError
  | TOMLDecodeError

text \<open>A Python dict with string keys: an association list in insertion order.\<close>

type_synonym pydict = "(string \<times> pyval) list"

text \<open>
  A configuration: section name to table. In the tiered notebook the sections are tiers
  and the tables map a housing attribute to its range string or list; in the flat
  notebook the sections are the attributes and the tables hold \<open>type\<close> and its fields.
\<close>

type_synonym housing_config = "(string \<times> pydict) list"

text \<open>
  The process-wide generator behind \<open>random.randint\<close> and \<open>random.choice\<close>: the
  sequence of raw draws it delivers, and how many it has delivered so far.
\<close>

record rng =
  raw :: "nat \<Rightarrow> nat"
  pos :: nat

definition next_raw :: "rng \<Rightarrow> nat \<times> rng" where
  "next_raw g = (raw g (pos g), g\<lparr>pos := Suc (pos g)\<rparr>)"

text \<open>
  \<open>random.randint(a, b)\<close>: an empty range raises \<open>ValueError\<close> before anything is drawn;
  otherwise one of the \<open>b - a + 1\<close> integers from \<open>a\<close> to \<open>b\<close>.
\<close>

definition randint :: "int \<Rightarrow> int \<Rightarrow> rng \<Rightarrow> error + (int \<times> rng)" where
  "randint a b g =
     (if b < a then Inl ValueError
      else (case next_raw g of (n, g') \<Rightarrow> Inr (a + int (n mod nat (b - a + 1)), g')))"

text \<open>\<open>random.choice(seq)\<close>: \<open>seq[0]\<close> of an empty sequence raises \<open>IndexError\<close>.\<close>

definition choice :: "'a list \<Rightarrow> rng \<Rightarrow> error + ('a \<times> rng)" where
  "choice seq g =
     (if seq = [] then Inl IndexError
      else (case next_raw g of (n, g') \<Rightarrow> Inr (seq ! (n mod length seq), g')))"

section \<open>Strings and integers\<close>

text \<open>\<open>s.split(sep)\<close> for a one-character separator: never empty, keeps empty pieces.\<close>

fun split_on :: "char \<Rightarrow> string \<Rightarrow> string list" where
  "split_on sep [] = [[]]"
| "split_on sep (c # cs) =
     (if c = sep then [] # split_on sep cs
      else (case split_on sep cs of
              w # ws \<Rightarrow> (c # w) # ws
            | [] \<Rightarrow> [[c]]))"

definition is_digit :: "char \<Rightarrow> bool" where
  "is_digit c = (48 \<le> (of_char c :: nat) \<and> (of_char c :: nat) \<le> 57)"

text \<open>
  The characters that \<open>int\<close> skips around a literal: the six ASCII blanks, and the two
  blanks of the Latin-1 range. The separators 28 to 31 are not among them.
\<close>

definition is_space :: "char \<Rightarrow> bool" where
  "is_space c = ((of_char c :: nat) \<in> {9, 10, 11, 12, 13, 32, 133, 160})"

definition strip :: "string \<Rightarrow> string" where
  "strip s = rev (dropWhile is_space (rev (dropWhile is_space s)))"

text \<open>
  The digits of an integer literal: at least one digit, single underscores allowed
  between digits only. The flag says whether the previous character was a digit.
\<close>

fun digits_ok :: "bool \<Rightarrow> string \<Rightarrow> bool" where
  "digits_ok p [] = p"
| "digits_ok p (c # cs) =
     (if is_digit c then digits_ok True cs
      else if c = CHR ''_'' \<and> p then digits_ok False cs
      else False)"

definition digits_val :: "string \<Rightarrow> int" where
  "digits_val s = foldl (\<lambda>acc c. 10 * acc + (of_char c - 48)) 0 (filter is_digit s)"

text \<open>\<open>int(s)\<close> in base 10: surrounding whitespace, an optional sign, the digits.\<close>

definition py_int :: "string \<Rightarrow> error + int" where
  "py_int s =
     (let t = strip s;
          neg = (t \<noteq> [] \<and> hd t = CHR ''-'');
          body = (if t \<noteq> [] \<and> (hd t = CHR ''-'' \<or> hd t = CHR ''+'') then tl t else t)
      in if digits_ok False body
         then Inr ((if neg then - 1 else 1) * digits_val body)
         else Inl ValueError)"

text \<open>\<open>str(n)\<close> for a non-negative integer, as the f-string \<open>f"prop_{i}"\<close> renders it.\<close>

definition digit_char :: "nat \<Rightarrow> char" where
  "digit_char d = char_of (48 + d)"

fun str_nat :: "nat \<Rightarrow> string" where
  "str_nat n = (if n < 10 then [digit_char n] else str_nat (n div 10) @ [digit_char (n mod 10)])"

declare str_nat.simps [simp del]

text \<open>A list comprehension over a call that can raise: the first exception ends it.\<close>

fun map_result :: "('a \<Rightarrow> error + 'b) \<Rightarrow> 'a list \<Rightarrow> error + 'b list" where
  "map_result f [] = Inr []"
| "map_result f (x # xs) =
     (case f x of
        Inl e \<Rightarrow> Inl e
      | Inr y \<Rightarrow> (case map_result f xs of Inl e \<Rightarrow> Inl e | Inr ys \<Rightarrow> Inr (y # ys)))"

text \<open>\<open>min\<close> and \<open>max\<close> of a list; an empty list raises \<open>ValueError\<close>.\<close>

fun py_min :: "int list \<Rightarrow> error + int" where
  "py_min [] = Inl ValueError"
| "py_min (x # xs) = Inr (fold min xs x)"

fun py_max :: "int list \<Rightarrow> error + int" where
  "py_max [] = Inl ValueError"
| "py_max (x # xs) = Inr (fold max xs x)"

text \<open>
  \<open>round(n, -3)\<close> on an \<open>int\<close>: CPython subtracts the remainder of a division to nearest,
  where a remainder of exactly half goes to the even quotient.
\<close>

definition divmod_near :: "int \<Rightarrow> int \<Rightarrow> int \<times> int" where
  "divmod_near a b =
     (let q = a div b; r = a mod b
      in if 2 * r > b \<or> (2 * r = b \<and> odd q) then (q + 1, r - b) else (q, r))"

definition round_neg3 :: "int \<Rightarrow> int" where
  "round_neg3 n = n - snd (divmod_near n 1000)"

section \<open>The tiered notebook\<close>

definition get_randint_from_range_str :: "string \<Rightarrow> rng \<Rightarrow> error + (int \<times> rng)" where
  "get_randint_from_range_str range_str g =
     (case map_result py_int (split_on CHR ''-'' range_str) of
        Inl e \<Rightarrow> Inl e
      | Inr range_list \<Rightarrow>
          (case py_min range_list of
             Inl e \<Rightarrow> Inl e
           | Inr min_value \<Rightarrow>
               (case py_max range_list of
                  Inl e \<Rightarrow> Inl e
                | Inr max_value \<Rightarrow>
                    (case randint min_value max_value g of
                       Inl e \<Rightarrow> Inl e
                     | Inr (rand_int, g') \<Rightarrow>
                         Inr (if rand_int \<le> 100000 then rand_int
                              else round_neg3 rand_int, g')))))"

text \<open>The range string \<open>"a-b"\<close> as the configuration file writes it.\<close>

definition range_str_of :: "nat \<Rightarrow> nat \<Rightarrow> string" where
  "range_str_of a b = str_nat a @ ''-'' @ str_nat b"

text \<open>
  \<open>get_random_tier_config\<close>: one tier name chosen from the keys, then its table.
\<close>

definition get_random_tier_config :: "housing_config \<Rightarrow> rng \<Rightarrow> error + (pydict \<times> rng)" where
  "get_random_tier_config housing_config g =
     (let tiers = map fst housing_config
      in case choice tiers g of
           Inl e \<Rightarrow> Inl e
         | Inr (random_tier, g') \<Rightarrow>
             (case map_of housing_config random_tier of
                None \<Rightarrow> Inl (KeyError random_tier)
              | Some tier_config \<Rightarrow> Inr (tier_config, g')))"

text \<open>
  The loop of \<open>generate_one_row_random_house_data\<close> over the keys of \<open>config\<close>. The two
  \<open>if\<close>s test the exact type of the value: a string is a range, a list is a choice, and
  a value of any other type adds nothing to \<open>new_row\<close>.
\<close>

fun row_loop :: "pydict \<Rightarrow> string list \<Rightarrow> pydict \<Rightarrow> rng \<Rightarrow> error + (pydict \<times> rng)" where
  "row_loop config [] new_row g = Inr (new_row, g)"
| "row_loop config (housing_attribute # rest) new_row g =
     (case map_of config housing_attribute of
        None \<Rightarrow> Inl (KeyError housing_attribute)
      | Some housing_attribute_value \<Rightarrow>
          (case housing_attribute_value of
             PStr s \<Rightarrow>
               (case get_randint_from_range_str s g of
                  Inl e \<Rightarrow> Inl e
                | Inr (v, g') \<Rightarrow>
                    row_loop config rest (AList.update housing_attribute (PInt v) new_row) g')
           | PList xs \<Rightarrow>
               (case choice xs g of
                  Inl e \<Rightarrow> Inl e
                | Inr (v, g') \<Rightarrow>
                    row_loop config rest (AList.update housing_attribute v new_row) g')
           | _ \<Rightarrow> row_loop config rest new_row g))"

definition generate_one_row_random_house_data :: "pydict \<Rightarrow> rng \<Rightarrow> error + (pydict \<times> rng)" where
  "generate_one_row_random_house_data config g = row_loop config (map fst config) [] g"

section \<open>Data frames\<close>

text \<open>
  A pandas \<open>DataFrame\<close>: the column names in order, and one dict per row. \<open>len(df)\<close> is
  the number of rows.
\<close>

record dataframe =
  columns :: "string list"
  body :: "pydict list"

definition add_keys :: "string list \<Rightarrow> string list \<Rightarrow> string list" where
  "add_keys ks cols = fold (\<lambda>k cs. if k \<in> set cs then cs else cs @ [k]) ks cols"

text \<open>
  \<open>pd.DataFrame(list_of_dicts)\<close>: the columns are the keys in order of first appearance,
  and a row that lacks a key has \<open>NaN\<close> there.
\<close>

definition DataFrame_records :: "pydict list \<Rightarrow> dataframe" where
  "DataFrame_records df_rows =
     (let cols = fold (\<lambda>r cs. add_keys (map fst r) cs) df_rows []
      in \<lparr>columns = cols,
          body = map (\<lambda>r. map (\<lambda>c. (c, case map_of r c of None \<Rightarrow> PNaN | Some v \<Rightarrow> v)) cols)
                     df_rows\<rparr>)"

text \<open>
  \<open>pd.DataFrame(dict_of_lists)\<close>: the columns are the keys, the lists must have one
  length, and that length is the number of rows (none for an empty dict).
\<close>

definition DataFrame_columns :: "(string \<times> pyval list) list \<Rightarrow> error + dataframe" where
  "DataFrame_columns df_cols =
     (case df_cols of
        [] \<Rightarrow> Inr \<lparr>columns = [], body = []\<rparr>
      | c # cs \<Rightarrow>
          if list_ex (\<lambda>d. length (snd d) \<noteq> length (snd c)) cs then Inl ValueError
          else Inr \<lparr>columns = map fst df_cols,
                    body = map (\<lambda>i. map (\<lambda>d. (fst d, snd d ! i)) df_cols)
                               [0..<length (snd c)]\<rparr>)"







text \<open>\<open>df[:n]\<close>: the first \<open>n\<close> rows.\<close>

definition df_head :: "nat \<Rightarrow> dataframe \<Rightarrow> dataframe" where
  "df_head n df = df\<lparr>body := take n (body df)\<rparr>"

text \<open>
  \<open>df[name] = values\<close>: the list must have one value per row; the column is replaced if
  it exists and appended otherwise.
\<close>

definition df_setitem :: "dataframe \<Rightarrow> string \<Rightarrow> pyval list \<Rightarrow> error + dataframe" where
  "df_setitem df name vals =
     (if length vals \<noteq> length (body df) then Inl ValueError
      else Inr \<lparr>columns = add_keys [name] (columns df),
                body = map (\<lambda>(r, v). AList.update name v r) (zip (body df) vals)\<rparr>)"

section \<open>The dataset builder of the tiered notebook\<close>

fun df_loop :: "housing_config \<Rightarrow> nat \<Rightarrow> pydict list \<Rightarrow> rng \<Rightarrow> error + (pydict list \<times> rng)" where
  "df_loop housing_config 0 df_rows g = Inr (df_rows, g)"
| "df_loop housing_config (Suc n) df_rows g =
     (case get_random_tier_config housing_config g of
        Inl e \<Rightarrow> Inl e
      | Inr (tier_config, g1) \<Rightarrow>
          (case generate_one_row_random_house_data tier_config g1 of
             Inl e \<Rightarrow> Inl e
           | Inr (new_row, g2) \<Rightarrow> df_loop housing_config n (df_rows @ [new_row]) g2))"

text \<open>\<open>range(row_size)\<close> is empty for a negative \<open>row_size\<close>.\<close>

definition generate_housing_df :: "housing_config \<Rightarrow> int \<Rightarrow> rng \<Rightarrow> error + (dataframe \<times> rng)" where
  "generate_housing_df housing_config row_size g =
     (case df_loop housing_config (nat row_size) [] g of
        Inl e \<Rightarrow> Inl e
      | Inr (df_rows, g') \<Rightarrow> Inr (DataFrame_records df_rows, g'))"

section \<open>The flat notebook\<close>

text \<open>
  The flat notebook draws from two generators: Python's \<open>random\<close> for \<open>randint\<close> and
  \<open>choice\<close>, and NumPy's for \<open>normal\<close>.
\<close>

record gens =
  py_random :: rng
  np_random :: rng

text \<open>
  \<open>randint\<close> on values read from the configuration: \<open>b + 1\<close> is computed first and
  needs a number; then \<open>a\<close> must be an index, where a string is refused with
  \<open>ValueError\<close> and anything else with \<open>TypeError\<close>. Booleans count as 0 and 1.
\<close>

fun as_index :: "pyval \<Rightarrow> int option" where
  "as_index (PInt i) = Some i"
| "as_index (PBool b) = Some (if b then 1 else 0)"
| "as_index _ = None"

definition randint_val :: "pyval \<Rightarrow> pyval \<Rightarrow> rng \<Rightarrow> error + (int \<times> rng)" where
  "randint_val a b g =
     (case as_index b of
        None \<Rightarrow> Inl TypeError
      | Some bi \<Rightarrow>
          (case as_index a of
             None \<Rightarrow> (case a of PStr s \<Rightarrow> Inl ValueError | _ \<Rightarrow> Inl TypeError)
           | Some ai \<Rightarrow> randint ai bi g))"

text \<open>
  \<open>choice\<close> on a value read from the configuration: a list gives one of its elements, a
  string one of its characters; indexing a table by a number raises \<open>KeyError\<close>, and a
  value with no length raises \<open>TypeError\<close>.
\<close>

definition choice_val :: "pyval \<Rightarrow> rng \<Rightarrow> error + (pyval \<times> rng)" where
  "choice_val seq g =
     (case seq of
        PList xs \<Rightarrow> choice xs g
      | PStr s \<Rightarrow> choice (map (\<lambda>c. PStr [c]) s) g
      | PDict d \<Rightarrow>
          Inl (KeyError (str_nat (if d = [] then 0 else fst (next_raw g) mod length d)))
      | _ \<Rightarrow> Inl TypeError)"

text \<open>
  \<open>build_random_housing_column_value\<close>. The parameter \<open>normal_rounded\<close> stands for
  \<open>int(round(normal(loc=mean, scale=sd, size=1)[0], -3))\<close> as a function of the two
  configured values and of the raw draw of NumPy's generator. A \<open>type\<close> that matches
  none of the four branches falls off the end of the function, which returns \<open>None\<close>.
\<close>

definition build_random_housing_column_value ::
  "(pyval \<Rightarrow> pyval \<Rightarrow> nat \<Rightarrow> error + int) \<Rightarrow> pydict \<Rightarrow> gens \<Rightarrow> error + (pyval \<times> gens)" where
  "build_random_housing_column_value normal_rounded attribute s =
     (case map_of attribute ''type'' of
        None \<Rightarrow> Inl (KeyError ''type'')
      | Some ty \<Rightarrow>
          if ty = PStr ''min_max'' then
            (case map_of attribute ''min'' of
               None \<Rightarrow> Inl (KeyError ''min'')
             | Some lo \<Rightarrow>
                 (case map_of attribute ''max'' of
                    None \<Rightarrow> Inl (KeyError ''max'')
                  | Some hi \<Rightarrow>
                      (case randint_val lo hi (py_random s) of
                         Inl e \<Rightarrow> Inl e
                       | Inr (v, g') \<Rightarrow> Inr (PInt v, s\<lparr>py_random := g'\<rparr>))))
          else if ty = PStr ''bool'' then
            (case choice [PBool True, PBool False] (py_random s) of
               Inl e \<Rightarrow> Inl e
             | Inr (v, g') \<Rightarrow> Inr (v, s\<lparr>py_random := g'\<rparr>))
          else if ty = PStr ''dist'' then
            (case map_of attribute ''mean'' of
               None \<Rightarrow> Inl (KeyError ''mean'')
             | Some mean \<Rightarrow>
                 (case map_of attribute ''sd'' of
                    None \<Rightarrow> Inl (KeyError ''sd'')
                  | Some sd \<Rightarrow>
                      (case next_raw (np_random s) of
                         (z, g') \<Rightarrow>
                           (case normal_rounded mean sd z of
                              Inl e \<Rightarrow> Inl e
                            | Inr v \<Rightarrow> Inr (PInt v, s\<lparr>np_random := g'\<rparr>)))))
          else if ty = PStr ''list'' then
            (case map_of attribute ''list'' of
               None \<Rightarrow> Inl (KeyError ''list'')
             | Some l \<Rightarrow>
                 (case choice_val l (py_random s) of
                    Inl e \<Rightarrow> Inl e
                  | Inr (v, g') \<Rightarrow> Inr (v, s\<lparr>py_random := g'\<rparr>)))
          else Inr (PNone, s))"

text \<open>The list comprehension of one column: \<open>sample_size\<close> calls, one after the other.\<close>

fun sample_column ::
  "(pyval \<Rightarrow> pyval \<Rightarrow> nat \<Rightarrow> error + int) \<Rightarrow> pydict \<Rightarrow> nat \<Rightarrow> gens \<Rightarrow> error + (pyval list \<times> gens)" where
  "sample_column normal_rounded column_config 0 s = Inr ([], s)"
| "sample_column normal_rounded column_config (Suc n) s =
     (case build_random_housing_column_value normal_rounded column_config s of
        Inl e \<Rightarrow> Inl e
      | Inr (v, s1) \<Rightarrow>
          (case sample_column normal_rounded column_config n s1 of
             Inl e \<Rightarrow> Inl e
           | Inr (vs, s2) \<Rightarrow> Inr (v # vs, s2)))"

fun cols_loop ::
  "(pyval \<Rightarrow> pyval \<Rightarrow> nat \<Rightarrow> error + int) \<Rightarrow> housing_config \<Rightarrow> string list \<Rightarrow> nat \<Rightarrow>
   (string \<times> pyval list) list \<Rightarrow> gens \<Rightarrow> error + ((string \<times> pyval list) list \<times> gens)" where
  "cols_loop normal_rounded housing_config [] sample_size df_cols s = Inr (df_cols, s)"
| "cols_loop normal_rounded housing_config (col # rest) sample_size df_cols s =
     (case map_of housing_config col of
        None \<Rightarrow> Inl (KeyError col)
      | Some column_config \<Rightarrow>
          (case sample_column normal_rounded column_config sample_size s of
             Inl e \<Rightarrow> Inl e
           | Inr (vs, s') \<Rightarrow>
               cols_loop normal_rounded housing_config rest sample_size
                 (AList.update col vs df_cols) s'))"

text \<open>
  \<open>generate_housing_data_df\<close> reads the global \<open>housing_config\<close>, here an argument.
\<close>

definition generate_housing_data_df ::
  "(pyval \<Rightarrow> pyval \<Rightarrow> nat \<Rightarrow> error + int) \<Rightarrow> housing_config \<Rightarrow> int \<Rightarrow> gens \<Rightarrow>
   error + (dataframe \<times> gens)" where
  "generate_housing_data_df normal_rounded housing_config sample_size s =
     (case cols_loop normal_rounded housing_config (map fst housing_config) (nat sample_size) [] s of
        Inl e \<Rightarrow> Inl e
      | Inr (df_cols, s') \<Rightarrow>
          (case DataFrame_columns df_cols of
             Inl e \<Rightarrow> Inl e
           | Inr df \<Rightarrow> Inr (df, s')))"

section \<open>Loading the configuration\<close>

text \<open>
  Both notebooks load the configuration with \<open>tomli.load\<close> and nothing else. The file is
  taken as what it denotes: text that is not TOML, or the table of its sections.
  \<open>tomli.load\<close> raises \<open>TOMLDecodeError\<close> on the first and returns the second as a dict.
\<close>

datatype config_source = Unparsable | Document housing_config

fun load_housing_config :: "config_source \<Rightarrow> error + housing_config" where
  "load_housing_config Unparsable = Inl TOMLDecodeError"
| "load_housing_config (Document housing_config) = Inr housing_config"

section \<open>The database notebook\<close>

text \<open>
  The \<open>market_id\<close> column: \<open>[f"prop_{i}" for i in range(len(df))]\<close>, assigned to the
  first twenty rows of the data read from the CSV file.
\<close>

definition market_ids :: "dataframe \<Rightarrow> pyval list" where
  "market_ids df = map (\<lambda>i. PStr (''prop_'' @ str_nat i)) [0..<length (body df)]"

definition add_market_id :: "dataframe \<Rightarrow> error + dataframe" where
  "add_market_id csv_df =
     (let df = df_head 20 csv_df in df_setitem df ''market_id'' (market_ids df))"

text \<open>
  \<open>drop_tables\<close>. What \<open>session.execute\<close> does to the database is a parameter: it returns
  the exception it raised, if any, and the database afterwards. \<open>print(e)\<close> appends the
  message of the exception to the standard output.
\<close>

datatype exn = OperationalError string | OtherError string

definition drop_tables ::
  "(string \<Rightarrow> 'db \<Rightarrow> exn option \<times> 'db) \<Rightarrow> string \<Rightarrow> 'db \<times> string list \<Rightarrow>
   exn + ('db \<times> string list)" where
  "drop_tables execute table_name w =
     (let str_sql = ''drop table '' @ table_name
      in case execute str_sql (fst w) of
           (None, db') \<Rightarrow> Inr (db', snd w)
         | (Some (OperationalError e), db') \<Rightarrow> Inr (db', snd w @ [e])
         | (Some (OtherError e), db') \<Rightarrow> Inl (OtherError e))"

section \<open>Well-formed configurations and example data\<close>

text \<open>
  The tiered notebook notes that a production version would check that the strings of
  the configuration have the form \<open>"{int}-{int}"\<close>; the code itself checks nothing. A
  value is a well-formed rule when it is a string whose dash-separated pieces all parse
  as integers, or a list with at least one element.
\<close>

fun valid_rule :: "pyval \<Rightarrow> bool" where
  "valid_rule (PStr s) =
     (case map_result py_int (split_on CHR ''-'' s) of Inl e \<Rightarrow> False | Inr xs \<Rightarrow> True)"
| "valid_rule (PList xs) = (xs \<noteq> [])"
| "valid_rule _ = False"

definition valid_rule_set :: "pydict \<Rightarrow> bool" where
  "valid_rule_set config = list_all (\<lambda>kv. valid_rule (snd kv)) config"




text \<open>
  Two generators deliver the same draws from now on, whatever they delivered before:
  what seeding two runs with the same seed establishes.
\<close>

definition same_draws :: "rng \<Rightarrow> rng \<Rightarrow> bool" where
  "same_draws g h = (\<forall>k. raw g (pos g + k) = raw h (pos h + k))"

definition same_gens :: "gens \<Rightarrow> gens \<Rightarrow> bool" where
  "same_gens s t =
     (same_draws (py_random s) (py_random t) \<and> same_draws (np_random s) (np_random t))"

text \<open>What a run of a builder shows to its caller: the exception or the data frame.\<close>

definition dataset_of :: "error + (dataframe \<times> 's) \<Rightarrow> error + dataframe" where
  "dataset_of res = (case res of Inl e \<Rightarrow> Inl e | Inr (df, s) \<Rightarrow> Inr df)"

text \<open>The \<open>tier-1\<close> table that the tiered notebook prints, in the order of its file.\<close>

definition tier_1 :: pydict where
  "tier_1 =
     [(''price'', PStr ''100000-200000''),
      (''bedrooms'', PStr ''1-3''),
      (''bathrooms'', PStr ''1-3''),
      (''estate_agent_code'', PStr ''1-5''),
      (''transport_link_code'', PStr ''1-8''),
      (''council_tax'', PList [PStr ''A'', PStr ''B'', PStr ''C'']),
      (''freehold'', PList [PBool True, PBool False]),
      (''garage'', PList [PBool False]),
      (''parking'', PList [PBool True, PBool False])]"

text \<open>A generator whose raw draws are 0, 1, 2, ...\<close>

definition counting_rng :: rng where
  "counting_rng = \<lparr>raw = (\<lambda>k. k), pos = 0\<rparr>"

text \<open>A generator that has delivered five draws and delivers 0, 1, 2, ... from now on.\<close>

definition replayed_rng :: rng where
  "replayed_rng = \<lparr>raw = (\<lambda>k. k - 5), pos = 5\<rparr>"

definition counting_gens :: gens where
  "counting_gens = \<lparr>py_random = counting_rng, np_random = counting_rng\<rparr>"

text \<open>The configuration that the flat notebook prints, in the order of its file.\<close>

definition flat_config :: housing_config where
  "flat_config =
     [(''price'', [(''type'', PStr ''dist''), (''mean'', PInt 500000), (''sd'', PInt 200000)]),
      (''area'', [(''type'', PStr ''min_max''), (''max'', PInt 300), (''min'', PInt 50)]),
      (''bathrooms'', [(''type'', PStr ''min_max''), (''max'', PInt 5), (''min'', PInt 1)]),
      (''bedrooms'', [(''type'', PStr ''min_max''), (''max'', PInt 5), (''min'', PInt 1)]),
      (''garage'', [(''type'', PStr ''bool'')]),
      (''parking'', [(''type'', PStr ''bool'')]),
      (''council_tax_band'',
         [(''type'', PStr ''list''),
          (''list'', PList [PStr ''A'', PStr ''B'', PStr ''C'', PStr ''D'', PStr ''E''])])]"

text \<open>
  A degenerate normal draw for the examples: the sample is the mean itself, rounded to
  the nearest thousand.
\<close>

definition mean_only :: "pyval \<Rightarrow> pyval \<Rightarrow> nat \<Rightarrow> error + int" where
  "mean_only mean sd z = (case mean of PInt m \<Rightarrow> Inr (round_neg3 m) | _ \<Rightarrow> Inl TypeError)"

section \<open>Properties\<close>

subsection \<open>Decimal strings and their parsing\<close>

lemma is_digit_digit_char: "d < 10 \<Longrightarrow> is_digit (digit_char d)"
  by (simp add: is_digit_def digit_char_def)

lemma digit_char_val:
  assumes "d < 10"
  shows "(of_char (digit_char d) :: int) - 48 = int d"
proof -
  have "(of_char (digit_char d) :: nat) = 48 + d"
    using assms by (simp add: digit_char_def)
  then have "int (of_char (digit_char d)) = int (48 + d)" by simp
  then have "(of_char (digit_char d) :: int) = int (48 + d)"
    by (simp only: of_nat_of_char)
  then show ?thesis by simp
qed

lemma str_nat_digits: "c \<in> set (str_nat n) \<Longrightarrow> is_digit c"
proof (induction n arbitrary: c rule: str_nat.induct)
  case (1 n)
  show ?case
  proof (cases "n < 10")
    case True
    with "1.prems" show ?thesis
      by (simp add: str_nat.simps [of n] is_digit_digit_char)
  next
    case False
    with "1.prems" "1.IH" show ?thesis
      by (auto simp: str_nat.simps [of n] is_digit_digit_char)
  qed
qed

lemma str_nat_nonempty: "str_nat n \<noteq> []"
  by (subst str_nat.simps) simp

lemma digits_val_snoc:
  "is_digit c \<Longrightarrow> digits_val (s @ [c]) = 10 * digits_val s + (of_char c - 48)"
  by (simp add: digits_val_def)

lemma digits_val_str_nat: "digits_val (str_nat n) = int n"
proof (induction n rule: str_nat.induct)
  case (1 n)
  show ?case
  proof (cases "n < 10")
    case True
    then show ?thesis
      by (simp add: str_nat.simps [of n] digits_val_def is_digit_digit_char digit_char_val)
  next
    case False
    have "digits_val (str_nat n) = 10 * digits_val (str_nat (n div 10)) + int (n mod 10)"
      using False
      by (simp add: str_nat.simps [of n] digits_val_snoc is_digit_digit_char digit_char_val)
    also have "\<dots> = 10 * int (n div 10) + int (n mod 10)"
      using "1.IH" False by simp
    also have "\<dots> = int (10 * (n div 10) + n mod 10)"
      by (simp only: of_nat_add of_nat_mult of_nat_numeral)
    also have "\<dots> = int n"
      by (simp only: mult_div_mod_eq)
    finally show ?thesis .
  qed
qed

lemma digits_ok_all_digits:
  "s \<noteq> [] \<Longrightarrow> \<forall>c \<in> set s. is_digit c \<Longrightarrow> digits_ok p s"
proof (induction s arbitrary: p)
  case Nil
  then show ?case by simp
next
  case (Cons c cs)
  then show ?case by (cases cs) auto
qed

lemma is_digit_not_space: "is_digit c \<Longrightarrow> \<not> is_space c"
  by (auto simp: is_digit_def is_space_def)

lemma strip_digits:
  assumes "\<forall>c \<in> set s. is_digit c"
  shows "strip s = s"
proof (cases s)
  case Nil
  then show ?thesis by (simp add: strip_def)
next
  case (Cons c cs)
  have ns: "\<forall>c \<in> set s. \<not> is_space c"
    using assms is_digit_not_space by blast
  then have "dropWhile is_space s = s"
    by (metis dropWhile_eq_self_iff  list.set_sel(1))
  moreover have "dropWhile is_space (rev s) = rev s"
    using ns by (metis dropWhile_eq_self_iff list.set_sel(1) set_rev)
  ultimately show ?thesis by (simp add: strip_def)
qed

lemma is_digit_not_sign: "is_digit c \<Longrightarrow> c \<noteq> CHR ''-'' \<and> c \<noteq> CHR ''+''"
  by (auto simp: is_digit_def)

lemma py_int_str_nat: "py_int (str_nat n) = Inr (int n)"
proof -
  have d: "\<forall>c \<in> set (str_nat n). is_digit c"
    using str_nat_digits by blast
  have ne: "str_nat n \<noteq> []" by (rule str_nat_nonempty)
  then have "hd (str_nat n) \<in> set (str_nat n)" by simp
  then have "hd (str_nat n) \<noteq> CHR ''-'' \<and> hd (str_nat n) \<noteq> CHR ''+''"
    using d is_digit_not_sign by blast
  then show ?thesis
    using ne d by (simp add: py_int_def strip_digits digits_ok_all_digits digits_val_str_nat)
qed

lemma str_nat_inject: "str_nat m = str_nat n \<Longrightarrow> m = n"
  by (metis digits_val_str_nat of_nat_eq_iff)

lemma split_on_no_sep: "sep \<notin> set s \<Longrightarrow> split_on sep s = [s]"
  by (induction s) auto

lemma split_on_append:
  "sep \<notin> set s \<Longrightarrow> split_on sep (s @ sep # t) = s # split_on sep t"
  by (induction s) auto

lemma dash_not_in_str_nat: "CHR ''-'' \<notin> set (str_nat n)"
  using str_nat_digits is_digit_not_sign by blast

lemma split_range_str_of:
  "split_on CHR ''-'' (range_str_of a b) = [str_nat a, str_nat b]"
  by (simp add: range_str_of_def split_on_append split_on_no_sep dash_not_in_str_nat)

lemma parse_range_str_of:
  "map_result py_int (split_on CHR ''-'' (range_str_of a b)) = Inr [int a, int b]"
  by (simp add: split_range_str_of py_int_str_nat)

subsection \<open>Drawing and rounding\<close>

lemma randint_ok:
  "a \<le> b \<Longrightarrow>
   randint a b g = Inr (a + int (raw g (pos g) mod nat (b - a + 1)), g\<lparr>pos := Suc (pos g)\<rparr>)"
  by (simp add: randint_def next_raw_def)

lemma randint_bounds:
  assumes "randint a b g = Inr (d, g')"
  shows "a \<le> d \<and> d \<le> b"
proof -
  from assms have ab: "a \<le> b"
    by (auto simp: randint_def split: if_splits)
  then have "0 < nat (b - a + 1)" by simp
  then have "raw g (pos g) mod nat (b - a + 1) < nat (b - a + 1)"
    by (rule mod_less_divisor)
  then have "int (raw g (pos g) mod nat (b - a + 1)) < b - a + 1"
    using ab by linarith
  moreover have "d = a + int (raw g (pos g) mod nat (b - a + 1))"
    using assms ab by (simp add: randint_ok)
  ultimately show ?thesis by simp
qed

lemma randint_onto:
  assumes "a \<le> d" "d \<le> b"
  shows "randint a b \<lparr>raw = (\<lambda>k. nat (d - a)), pos = 0\<rparr> = Inr (d, \<lparr>raw = (\<lambda>k. nat (d - a)), pos = Suc 0\<rparr>)"
proof -
  have "nat (d - a) < nat (b - a + 1)" using assms by simp
  then have "nat (d - a) mod nat (b - a + 1) = nat (d - a)" by simp
  then show ?thesis using assms by (simp add: randint_def next_raw_def)
qed

lemma round_neg3_eq:
  "round_neg3 n =
     1000 * (n div 1000 +
       (if 2 * (n mod 1000) > 1000 \<or> (2 * (n mod 1000) = 1000 \<and> odd (n div 1000)) then 1 else 0))"
proof -
  have e: "n - n mod 1000 = 1000 * (n div 1000)"
    by (simp add: minus_mod_eq_mult_div)
  have "n - (n mod 1000 - 1000) = (n - n mod 1000) + 1000" by simp
  with e have e2: "n - (n mod 1000 - 1000) = 1000 * (n div 1000 + 1)" by simp
  show ?thesis
    using e e2 by (simp add: round_neg3_def divmod_near_def Let_def)
qed

lemma round_neg3_multiple: "1000 dvd round_neg3 n"
  by (subst round_neg3_eq) (rule dvd_triv_left)

lemma round_neg3_cases:
  obtains q r where "n = 1000 * q + r" "0 \<le> r" "r < 500 \<or> (r = 500 \<and> even q)"
      "round_neg3 n = 1000 * q"
  | q r where "n = 1000 * q + r" "r < 1000" "500 < r \<or> (r = 500 \<and> odd q)"
      "round_neg3 n = 1000 * (q + 1)"
proof -
  define q where "q = n div 1000"
  define r where "r = n mod 1000"
  have e: "n = 1000 * q + r" and m: "0 \<le> r" "r < 1000"
    by (simp_all add: q_def r_def)
  show thesis
  proof (cases "2 * r > 1000 \<or> (2 * r = 1000 \<and> odd q)")
    case True
    then have "round_neg3 n = 1000 * (q + 1)"
      by (simp add: round_neg3_eq q_def r_def)
    moreover from True have "500 < r \<or> (r = 500 \<and> odd q)" by auto
    ultimately show thesis using that(2) e m by blast
  next
    case False
    then have "round_neg3 n = 1000 * q"
      by (simp add: round_neg3_eq q_def r_def)
    moreover from False have "r < 500 \<or> (r = 500 \<and> even q)" by auto
    ultimately show thesis using that(1) e m by blast
  qed
qed

lemma round_neg3_near: "\<bar>round_neg3 n - n\<bar> \<le> 500"
  by (rule round_neg3_cases [of n]) auto

lemma round_neg3_tie:
  assumes h: "\<bar>round_neg3 n - n\<bar> = 500"
  shows "even (round_neg3 n div 1000)"
proof (rule round_neg3_cases [of n])
  fix q r
  assume a: "n = 1000 * q + r" "0 \<le> r" "r < 500 \<or> (r = 500 \<and> even q)"
    "round_neg3 n = 1000 * q"
  with h have "r = 500" by auto
  with a show ?thesis by auto
next
  fix q r
  assume a: "n = 1000 * q + r" "r < 1000" "500 < r \<or> (r = 500 \<and> odd q)"
    "round_neg3 n = 1000 * (q + 1)"
  with h have "r = 500" by auto
  with a show ?thesis by auto
qed

lemma get_randint_range_str_of:
  "get_randint_from_range_str (range_str_of a b) g =
     (case randint (min (int a) (int b)) (max (int a) (int b)) g of
        Inl e \<Rightarrow> Inl e
      | Inr (d, g') \<Rightarrow> Inr (if d \<le> 100000 then d else round_neg3 d, g'))"
  by (simp add: get_randint_from_range_str_def parse_range_str_of min.commute max.commute)

lemma row_loop_single_list:
  "generate_one_row_random_house_data [(k, PList xs)] g =
     (case choice xs g of Inl e \<Rightarrow> Inl e | Inr (v, g') \<Rightarrow> Inr ([(k, v)], g'))"
  by (simp add: generate_one_row_random_house_data_def split: sum.splits)

lemma range_str_price: "range_str_of 100000 200000 = ''100000-200000''"
  by (simp add: range_str_of_def str_nat.simps digit_char_def char_of_eq_iff)

lemma round_neg3_150500: "round_neg3 150500 = 150000"
  by (simp add: round_neg3_def divmod_near_def)

subsection \<open>The range rule\<close>

text \<open>
  Claim C1. For a range rule \<open>"a-b"\<close> with \<open>a \<le> b\<close> and any generator,
  \<open>get_randint_from_range_str\<close> draws an integer \<open>d\<close> of the inclusive interval from
  \<open>a\<close> to \<open>b\<close> with \<open>randint\<close>; above 100000 it returns \<open>round(d, -3)\<close>, which is a
  multiple of 1000 at distance at most 500 from \<open>d\<close>, the even multiple when \<open>d\<close> lies
  halfway; otherwise it returns \<open>d\<close> itself. Every integer of the interval is the draw of
  some generator. A list rule stores the chosen element as it is, without rounding.
\<close>

theorem range_rule_draws_then_rounds_above_100000:
  assumes "a \<le> b"
  shows "(\<exists>d g'. randint (int a) (int b) g = Inr (d, g') \<and> int a \<le> d \<and> d \<le> int b \<and>
            get_randint_from_range_str (range_str_of a b) g =
              Inr (if 100000 < d then round_neg3 d else d, g') \<and>
            1000 dvd round_neg3 d \<and> \<bar>round_neg3 d - d\<bar> \<le> 500 \<and>
            (\<bar>round_neg3 d - d\<bar> = 500 \<longrightarrow> even (round_neg3 d div 1000))) \<and>
         (\<forall>d. int a \<le> d \<and> d \<le> int b \<longrightarrow>
            (\<exists>h h'. randint (int a) (int b) h = Inr (d, h'))) \<and>
         generate_one_row_random_house_data [(k, PList xs)] g =
           (case choice xs g of Inl e \<Rightarrow> Inl e | Inr (v, g') \<Rightarrow> Inr ([(k, v)], g'))"
proof (intro conjI)
  let ?d = "int a + int (raw g (pos g) mod nat (int b - int a + 1))"
  let ?g = "g\<lparr>pos := Suc (pos g)\<rparr>"
  have ab: "int a \<le> int b" using assms by simp
  have r: "randint (int a) (int b) g = Inr (?d, ?g)"
    using ab by (rule randint_ok)
  have bounds: "int a \<le> ?d \<and> ?d \<le> int b"
    using r by (rule randint_bounds)
  have mm: "min (int a) (int b) = int a" "max (int a) (int b) = int b"
    using ab by simp_all
  have res: "get_randint_from_range_str (range_str_of a b) g =
      Inr (if 100000 < ?d then round_neg3 ?d else ?d, ?g)"
    unfolding get_randint_range_str_of mm r by simp
  show "\<exists>d g'. randint (int a) (int b) g = Inr (d, g') \<and> int a \<le> d \<and> d \<le> int b \<and>
            get_randint_from_range_str (range_str_of a b) g =
              Inr (if 100000 < d then round_neg3 d else d, g') \<and>
            1000 dvd round_neg3 d \<and> \<bar>round_neg3 d - d\<bar> \<le> 500 \<and>
            (\<bar>round_neg3 d - d\<bar> = 500 \<longrightarrow> even (round_neg3 d div 1000))"
    using r bounds res round_neg3_multiple round_neg3_near round_neg3_tie by blast
  show "\<forall>d. int a \<le> d \<and> d \<le> int b \<longrightarrow> (\<exists>h h'. randint (int a) (int b) h = Inr (d, h'))"
    using randint_onto by blast
  show "generate_one_row_random_house_data [(k, PList xs)] g =
           (case choice xs g of Inl e \<Rightarrow> Inl e | Inr (v, g') \<Rightarrow> Inr ([(k, v)], g'))"
    by (rule row_loop_single_list)
qed

theorem range_rule_draws_then_rounds_above_100000_witness:
  "(100000::nat) \<le> 200000 \<and>
   (\<exists>g'. get_randint_from_range_str ''100000-200000'' \<lparr>raw = (\<lambda>k. 50500 + k), pos = 0\<rparr>
           = Inr (150000, g'))"
proof -
  let ?g = "\<lparr>raw = (\<lambda>k. 50500 + k), pos = 0\<rparr>"
  have h: "(100000::nat) \<le> 200000" by simp
  have r: "randint 100000 200000 ?g = Inr (150500, ?g\<lparr>pos := 1\<rparr>)"
    by (simp add: randint_def next_raw_def)
  have "\<exists>d g'. randint (int 100000) (int 200000) ?g = Inr (d, g') \<and>
          int 100000 \<le> d \<and> d \<le> int 200000 \<and>
          get_randint_from_range_str (range_str_of 100000 200000) ?g =
            Inr (if 100000 < d then round_neg3 d else d, g') \<and>
          1000 dvd round_neg3 d \<and> \<bar>round_neg3 d - d\<bar> \<le> 500 \<and>
          (\<bar>round_neg3 d - d\<bar> = 500 \<longrightarrow> even (round_neg3 d div 1000))"
    using range_rule_draws_then_rounds_above_100000 [OF h, of ?g "''k''" "[]"]
    by (rule conjunct1)
  then obtain d g' where d1: "randint (int 100000) (int 200000) ?g = Inr (d, g')"
    and d2: "get_randint_from_range_str (range_str_of 100000 200000) ?g =
       Inr (if 100000 < d then round_neg3 d else d, g')"
    by (elim exE conjE)
  from d1 r have "d = 150500" by simp
  with d2 have "get_randint_from_range_str ''100000-200000'' ?g = Inr (150000, g')"
    by (simp add: range_str_price round_neg3_150500)
  then have "\<exists>g'. get_randint_from_range_str ''100000-200000'' ?g = Inr (150000, g')" ..
  with h show ?thesis by (rule conjI)
qed

text \<open>
  Claim C5. For a range rule \<open>"a-b"\<close> with \<open>a \<le> b\<close> the draw \<open>d\<close> lies between \<open>a\<close> and
  \<open>b\<close>; the returned value \<open>r\<close> differs from the draw by at most 500, so it leaves the
  interval by at most 500, and only through rounding: a draw of at most 100000 is
  returned unchanged. Whenever the draw exceeds 100000, as for every draw but the
  minimum of the rule \<open>"100000-200000"\<close>, the returned value is a multiple of 1000.
\<close>

theorem range_value_within_500_of_interval:
  assumes "a \<le> b"
  shows "\<exists>d r g'. randint (int a) (int b) g = Inr (d, g') \<and>
           get_randint_from_range_str (range_str_of a b) g = Inr (r, g') \<and>
           int a \<le> d \<and> d \<le> int b \<and>
           \<bar>r - d\<bar> \<le> 500 \<and> int a - 500 \<le> r \<and> r \<le> int b + 500 \<and>
           (d \<le> 100000 \<longrightarrow> r = d) \<and>
           (100000 < d \<longrightarrow> 1000 dvd r)"
proof -
  let ?d = "int a + int (raw g (pos g) mod nat (int b - int a + 1))"
  let ?g = "g\<lparr>pos := Suc (pos g)\<rparr>"
  let ?r = "if ?d \<le> 100000 then ?d else round_neg3 ?d"
  have ab: "int a \<le> int b" using assms by simp
  have dr: "randint (int a) (int b) g = Inr (?d, ?g)"
    using ab by (rule randint_ok)
  have bounds: "int a \<le> ?d \<and> ?d \<le> int b"
    using dr by (rule randint_bounds)
  have mm: "min (int a) (int b) = int a" "max (int a) (int b) = int b"
    using ab by simp_all
  have res: "get_randint_from_range_str (range_str_of a b) g = Inr (?r, ?g)"
    unfolding get_randint_range_str_of mm dr by simp
  have near: "\<bar>?r - ?d\<bar> \<le> 500"
    using round_neg3_near [of ?d] by simp
  have lo: "int a - 500 \<le> ?r" and hi: "?r \<le> int b + 500"
    using near bounds by linarith+
  have same: "?d \<le> 100000 \<longrightarrow> ?r = ?d" by simp
  have mult: "100000 < ?d \<longrightarrow> 1000 dvd ?r"
    by (simp add: round_neg3_multiple)
  show ?thesis
    using dr res bounds near lo hi same mult by blast
qed

theorem range_value_within_500_of_interval_witness:
  "(100000::nat) \<le> 200000 \<and>
   (\<exists>v g'. get_randint_from_range_str ''100000-200000'' \<lparr>raw = (\<lambda>k. 50500 + k), pos = 0\<rparr>
           = Inr (v, g') \<and> 1000 dvd v \<and> 150000 \<le> v \<and> v \<le> 151000)"
proof -
  let ?g = "\<lparr>raw = (\<lambda>k. 50500 + k), pos = 0\<rparr>"
  have h: "(100000::nat) \<le> 200000" by simp
  have r: "randint 100000 200000 ?g = Inr (150500, ?g\<lparr>pos := 1\<rparr>)"
    by (simp add: randint_def next_raw_def)
  from range_value_within_500_of_interval [OF h, of ?g]
  obtain d v g' where d1: "randint (int 100000) (int 200000) ?g = Inr (d, g')"
    and d2: "get_randint_from_range_str (range_str_of 100000 200000) ?g = Inr (v, g')"
    and d3: "\<bar>v - d\<bar> \<le> 500" and d4: "100000 < d \<longrightarrow> 1000 dvd v"
    by (elim exE conjE)
  from d1 r have d': "d = 150500" by simp
  from d4 d' have m: "1000 dvd v" by simp
  from d3 d' have b: "150000 \<le> v \<and> v \<le> 151000" by linarith
  from d2 have "get_randint_from_range_str ''100000-200000'' ?g = Inr (v, g')"
    by (simp only: range_str_price)
  with m b have "\<exists>v g'. get_randint_from_range_str ''100000-200000'' ?g = Inr (v, g') \<and>
      1000 dvd v \<and> 150000 \<le> v \<and> v \<le> 151000" by blast
  with h show ?thesis by (rule conjI)
qed

text \<open>
  Claim C10, as the code has it. For non-negative integers \<open>a\<close> and \<open>b\<close> written in
  decimal, the range strings \<open>"a-b"\<close> and \<open>"b-a"\<close> give the same result on the same
  generator: \<open>get_randint_from_range_str\<close> draws between the smaller and the larger
  endpoint, and it raises nothing on either order.
\<close>

theorem reversed_range_str_same_interval:
  "get_randint_from_range_str (range_str_of a b) g = get_randint_from_range_str (range_str_of b a) g \<and>
   (\<exists>d g'. randint (min (int a) (int b)) (max (int a) (int b)) g = Inr (d, g') \<and>
      get_randint_from_range_str (range_str_of b a) g =
        Inr (if d \<le> 100000 then d else round_neg3 d, g'))"
proof -
  let ?lo = "min (int a) (int b)" and ?hi = "max (int a) (int b)"
  have "?lo \<le> ?hi" by simp
  then have r: "randint ?lo ?hi g =
      Inr (?lo + int (raw g (pos g) mod nat (?hi - ?lo + 1)), g\<lparr>pos := Suc (pos g)\<rparr>)"
    by (rule randint_ok)
  have sym: "get_randint_from_range_str (range_str_of a b) g =
      get_randint_from_range_str (range_str_of b a) g"
    by (simp add: get_randint_range_str_of min.commute max.commute)
  have "get_randint_from_range_str (range_str_of b a) g =
      (case randint ?lo ?hi g of Inl e \<Rightarrow> Inl e
       | Inr (d, g') \<Rightarrow> Inr (if d \<le> 100000 then d else round_neg3 d, g'))"
    by (simp add: get_randint_range_str_of min.commute max.commute)
  then show ?thesis using r sym by simp
qed

text \<open>
  A range string with a negative endpoint is not of the form the function parses: the
  leading dash splits off an empty piece, and \<open>int("")\<close> raises in either order.
\<close>

theorem negative_endpoint_raises_counterexample:
  "get_randint_from_range_str ''-3-5'' counting_rng = Inl ValueError \<and>
   get_randint_from_range_str ''5--3'' counting_rng = Inl ValueError"
  by (simp add: get_randint_from_range_str_def py_int_def strip_def digits_val_def is_digit_def)

subsection \<open>Rows\<close>

lemma map_result_length: "map_result f xs = Inr ys \<Longrightarrow> length ys = length xs"
  by (induction xs arbitrary: ys) (auto split: sum.splits)

lemma split_on_nonempty: "split_on sep s \<noteq> []"
  by (induction s) (auto split: list.splits)

lemma fold_min_le: "fold min xs (x::int) \<le> x"
proof (induction xs arbitrary: x)
  case Nil
  show ?case by simp
next
  case (Cons a xs)
  have "fold min xs (min a x) \<le> min a x" by (rule Cons.IH)
  then show ?case by simp
qed

lemma fold_max_ge: "(x::int) \<le> fold max xs x"
proof (induction xs arbitrary: x)
  case Nil
  show ?case by simp
next
  case (Cons a xs)
  have "max a x \<le> fold max xs (max a x)" by (rule Cons.IH)
  then show ?case by simp
qed

lemma get_randint_valid:
  assumes "valid_rule (PStr s)"
  shows "\<exists>v g'. get_randint_from_range_str s g = Inr (v, g')"
proof -
  from assms obtain ys where p: "map_result py_int (split_on CHR ''-'' s) = Inr ys"
    by (auto split: sum.splits)
  then have "length ys = length (split_on CHR ''-'' s)"
    by (rule map_result_length)
  then have "ys \<noteq> []" using split_on_nonempty [of "CHR ''-''" s] by auto
  then obtain y rest where ys: "ys = y # rest" by (cases ys) auto
  have "fold min rest y \<le> fold max rest y"
    using fold_min_le [of rest y] fold_max_ge [of y rest] by linarith
  then show ?thesis
    by (simp add: get_randint_from_range_str_def p ys randint_ok)
qed

lemma choice_nonempty:
  assumes "xs \<noteq> []"
  shows "\<exists>v g'. choice xs g = Inr (v, g') \<and> v \<in> set xs"
proof -
  have "raw g (pos g) mod length xs < length xs"
    using assms by simp
  then have "xs ! (raw g (pos g) mod length xs) \<in> set xs"
    by (rule nth_mem)
  then show ?thesis using assms by (simp add: choice_def next_raw_def)
qed

lemma map_of_key_in_set:
  "k \<in> fst ` set al \<Longrightarrow> \<exists>v. map_of al k = Some v \<and> (k, v) \<in> set al"
proof -
  assume "k \<in> fst ` set al"
  then have "map_of al k \<noteq> None" by (simp add: map_of_eq_None_iff)
  then obtain v where v: "map_of al k = Some v" by blast
  then have "(k, v) \<in> set al" by (rule map_of_SomeD)
  with v show ?thesis by blast
qed

lemma valid_rule_set_lookup:
  assumes "valid_rule_set config"
  shows "\<forall>k \<in> set (map fst config). \<exists>v. map_of config k = Some v \<and> valid_rule v"
proof
  fix k assume "k \<in> set (map fst config)"
  then have "k \<in> fst ` set config" by simp
  from map_of_key_in_set [OF this]
  obtain v where v: "map_of config k = Some v" "(k, v) \<in> set config"
    by blast
  from assms have "\<forall>kv \<in> set config. valid_rule (snd kv)"
    by (simp add: valid_rule_set_def list_all_iff)
  with v(2) have "valid_rule v" by fastforce
  with v(1) show "\<exists>v. map_of config k = Some v \<and> valid_rule v" by blast
qed

lemma row_loop_valid:
  assumes "\<forall>k \<in> set ks. \<exists>v. map_of config k = Some v \<and> valid_rule v"
  shows "\<exists>row g'. row_loop config ks new_row g = Inr (row, g') \<and>
           fst ` set row = fst ` set new_row \<union> set ks \<and>
           (distinct (map fst new_row) \<longrightarrow> distinct (map fst row))"
  using assms
proof (induction ks arbitrary: new_row g)
  case Nil
  show ?case by simp
next
  case (Cons k ks)
  from Cons.prems obtain v where v: "map_of config k = Some v" "valid_rule v" by auto
  have rest: "\<forall>k \<in> set ks. \<exists>v. map_of config k = Some v \<and> valid_rule v"
    using Cons.prems by simp
  have step: "\<exists>w g1. row_loop config (k # ks) new_row g =
                 row_loop config ks (AList.update k w new_row) g1"
  proof (cases v)
    case (PStr s)
    with v(2) obtain r g1 where "get_randint_from_range_str s g = Inr (r, g1)"
      using get_randint_valid by blast
    then show ?thesis using v(1) PStr by auto
  next
    case (PList xs)
    with v(2) have "xs \<noteq> []" by simp
    then obtain w g1 where "choice xs g = Inr (w, g1)"
      using choice_nonempty by blast
    then show ?thesis using v(1) PList by auto
  qed (use v(2) in simp_all)
  then obtain w g1 where e: "row_loop config (k # ks) new_row g =
      row_loop config ks (AList.update k w new_row) g1" by blast
  from Cons.IH [OF rest, of "AList.update k w new_row" g1]
  obtain row g' where r: "row_loop config ks (AList.update k w new_row) g1 = Inr (row, g')"
      "fst ` set row = fst ` set (AList.update k w new_row) \<union> set ks"
      "distinct (map fst (AList.update k w new_row)) \<longrightarrow> distinct (map fst row)"
    by blast
  have "fst ` set row = fst ` set new_row \<union> set (k # ks)"
    using r(2) by (simp add: dom_update)
  moreover have "distinct (map fst new_row) \<longrightarrow> distinct (map fst row)"
    using r(3) by (simp add: distinct_update)
  ultimately show ?case using e r(1) by simp
qed

lemma generate_one_row_valid:
  assumes "valid_rule_set config"
  shows "\<exists>row g'. generate_one_row_random_house_data config g = Inr (row, g') \<and>
           fst ` set row = fst ` set config \<and> distinct (map fst row)"
  using row_loop_valid [OF valid_rule_set_lookup [OF assms], of "[]" g]
  by (auto simp: generate_one_row_random_house_data_def)

text \<open>
  Claim C3, as the code has it. For a rule-set in which every value is a well-formed
  rule (a string of dash-separated integers or a non-empty list), one call of
  \<open>generate_one_row_random_house_data\<close> returns a row whose keys are exactly the keys
  of the rule-set, each with one value.
\<close>

theorem row_has_the_keys_of_a_well_formed_rule_set:
  assumes "valid_rule_set config"
  shows "\<exists>row g'. generate_one_row_random_house_data config g = Inr (row, g') \<and>
           set (map fst row) = set (map fst config) \<and> distinct (map fst row)"
  using generate_one_row_valid [OF assms, of g] by simp

lemma valid_rule_set_tier_1: "valid_rule_set tier_1"
  by code_simp

theorem row_has_the_keys_of_a_well_formed_rule_set_witness:
  "valid_rule_set tier_1 \<and>
   (\<exists>row g'. generate_one_row_random_house_data tier_1 counting_rng = Inr (row, g') \<and>
      set (map fst row) = set (map fst tier_1) \<and> distinct (map fst row))"
  using row_has_the_keys_of_a_well_formed_rule_set [OF valid_rule_set_tier_1, of counting_rng]
    valid_rule_set_tier_1 by simp

text \<open>
  For other rule-sets the claim fails: an attribute whose value is neither a string
  nor a list is left out of the row, an empty list raises \<open>IndexError\<close>, and a string
  with a piece that \<open>int\<close> refuses (here one that starts with the separator 28, which
  \<open>int\<close> does not skip) raises \<open>ValueError\<close>.
\<close>

lemma separator_28_is_refused:
  "get_randint_from_range_str (CHR 0x1C # ''2-4'') counting_rng = Inl ValueError"
  by (simp add: get_randint_from_range_str_def py_int_def strip_def is_space_def is_digit_def)

theorem row_drops_or_raises_counterexample:
  "generate_one_row_random_house_data [(''bedrooms'', PInt 3)] counting_rng
     = Inr ([], counting_rng) \<and>
   generate_one_row_random_house_data [(''garage'', PList [])] counting_rng = Inl IndexError \<and>
   generate_one_row_random_house_data [(''price'', PStr (CHR 0x1C # ''2-4''))] counting_rng
     = Inl ValueError"
  by (simp add: generate_one_row_random_house_data_def choice_def separator_28_is_refused)

subsection \<open>Values of the flat notebook\<close>












subsection \<open>Datasets\<close>


























subsection \<open>Loading, and rules that are incomplete or unknown\<close>

lemma build_no_type:
  "map_of attribute ''type'' = None \<Longrightarrow>
   build_random_housing_column_value nr attribute s = Inl (KeyError ''type'')"
  by (simp add: build_random_housing_column_value_def)

lemma build_min_max_no_min:
  "map_of attribute ''type'' = Some (PStr ''min_max'') \<Longrightarrow> map_of attribute ''min'' = None \<Longrightarrow>
   build_random_housing_column_value nr attribute s = Inl (KeyError ''min'')"
  by (simp add: build_random_housing_column_value_def)

lemma build_min_max_no_max:
  "map_of attribute ''type'' = Some (PStr ''min_max'') \<Longrightarrow> map_of attribute ''min'' = Some lo \<Longrightarrow>
   map_of attribute ''max'' = None \<Longrightarrow>
   build_random_housing_column_value nr attribute s = Inl (KeyError ''max'')"
  by (simp add: build_random_housing_column_value_def)

lemma build_dist_no_mean:
  "map_of attribute ''type'' = Some (PStr ''dist'') \<Longrightarrow> map_of attribute ''mean'' = None \<Longrightarrow>
   build_random_housing_column_value nr attribute s = Inl (KeyError ''mean'')"
  by (simp add: build_random_housing_column_value_def)

lemma build_dist_no_sd:
  "map_of attribute ''type'' = Some (PStr ''dist'') \<Longrightarrow> map_of attribute ''mean'' = Some m \<Longrightarrow>
   map_of attribute ''sd'' = None \<Longrightarrow>
   build_random_housing_column_value nr attribute s = Inl (KeyError ''sd'')"
  by (simp add: build_random_housing_column_value_def)

lemma build_list_no_list:
  "map_of attribute ''type'' = Some (PStr ''list'') \<Longrightarrow> map_of attribute ''list'' = None \<Longrightarrow>
   build_random_housing_column_value nr attribute s = Inl (KeyError ''list'')"
  by (simp add: build_random_housing_column_value_def)



text \<open>
  Claim C2, as the code has it. Loading is \<open>tomli.load\<close> alone: every document that
  parses is returned as it is, whatever its rules hold, and only text that is not TOML
  is refused. A rule with no \<open>type\<close>, a \<open>min_max\<close> rule with no \<open>min\<close> or no \<open>max\<close>, a
  \<open>dist\<close> rule with no \<open>mean\<close> or no \<open>sd\<close>, and a \<open>list\<close> rule with no \<open>list\<close> raise
  \<open>KeyError\<close> when a value is generated from them.
\<close>

theorem load_checks_no_rule_missing_fields_raise_at_generation:
  "load_housing_config (Document housing_config) = Inr housing_config \<and>
   load_housing_config Unparsable = Inl TOMLDecodeError \<and>
   (map_of attribute ''type'' = None \<longrightarrow>
      build_random_housing_column_value nr attribute s = Inl (KeyError ''type'')) \<and>
   (map_of attribute ''type'' = Some (PStr ''min_max'') \<and> map_of attribute ''min'' = None \<longrightarrow>
      build_random_housing_column_value nr attribute s = Inl (KeyError ''min'')) \<and>
   (map_of attribute ''type'' = Some (PStr ''min_max'') \<and> map_of attribute ''min'' = Some lo \<and>
    map_of attribute ''max'' = None \<longrightarrow>
      build_random_housing_column_value nr attribute s = Inl (KeyError ''max'')) \<and>
   (map_of attribute ''type'' = Some (PStr ''dist'') \<and> map_of attribute ''mean'' = None \<longrightarrow>
      build_random_housing_column_value nr attribute s = Inl (KeyError ''mean'')) \<and>
   (map_of attribute ''type'' = Some (PStr ''dist'') \<and> map_of attribute ''mean'' = Some lo \<and>
    map_of attribute ''sd'' = None \<longrightarrow>
      build_random_housing_column_value nr attribute s = Inl (KeyError ''sd'')) \<and>
   (map_of attribute ''type'' = Some (PStr ''list'') \<and> map_of attribute ''list'' = None \<longrightarrow>
      build_random_housing_column_value nr attribute s = Inl (KeyError ''list''))"
  using build_no_type [of attribute nr s] build_min_max_no_min [of attribute nr s]
    build_min_max_no_max [of attribute lo nr s] build_dist_no_mean [of attribute nr s]
    build_dist_no_sd [of attribute lo nr s] build_list_no_list [of attribute nr s]
  by simp

theorem load_checks_no_rule_missing_fields_raise_at_generation_witness:
  "map_of [(''max'', PInt 300)] ''type'' = None \<and>
   build_random_housing_column_value mean_only [(''max'', PInt 300)] counting_gens
     = Inl (KeyError ''type'') \<and>
   map_of [(''type'', PStr ''min_max''), (''max'', PInt 300)] ''type'' = Some (PStr ''min_max'') \<and>
   map_of [(''type'', PStr ''min_max''), (''max'', PInt 300)] ''min'' = None \<and>
   build_random_housing_column_value mean_only [(''type'', PStr ''min_max''), (''max'', PInt 300)]
     counting_gens = Inl (KeyError ''min'') \<and>
   map_of [(''type'', PStr ''min_max''), (''min'', PInt 50)] ''min'' = Some (PInt 50) \<and>
   map_of [(''type'', PStr ''min_max''), (''min'', PInt 50)] ''max'' = None \<and>
   build_random_housing_column_value mean_only [(''type'', PStr ''min_max''), (''min'', PInt 50)]
     counting_gens = Inl (KeyError ''max'') \<and>
   build_random_housing_column_value mean_only [(''type'', PStr ''dist''), (''sd'', PInt 50)]
     counting_gens = Inl (KeyError ''mean'') \<and>
   build_random_housing_column_value mean_only [(''type'', PStr ''dist''), (''mean'', PInt 50)]
     counting_gens = Inl (KeyError ''sd'') \<and>
   build_random_housing_column_value mean_only [(''type'', PStr ''list'')]
     counting_gens = Inl (KeyError ''list'')"
  using load_checks_no_rule_missing_fields_raise_at_generation
      [of "[]" "[(''max'', PInt 300)]" mean_only counting_gens "PInt 50"]
    load_checks_no_rule_missing_fields_raise_at_generation
      [of "[]" "[(''type'', PStr ''min_max''), (''max'', PInt 300)]" mean_only counting_gens "PInt 50"]
    load_checks_no_rule_missing_fields_raise_at_generation
      [of "[]" "[(''type'', PStr ''min_max''), (''min'', PInt 50)]" mean_only counting_gens "PInt 50"]
    load_checks_no_rule_missing_fields_raise_at_generation
      [of "[]" "[(''type'', PStr ''dist''), (''sd'', PInt 50)]" mean_only counting_gens "PInt 50"]
    load_checks_no_rule_missing_fields_raise_at_generation
      [of "[]" "[(''type'', PStr ''dist''), (''mean'', PInt 50)]" mean_only counting_gens "PInt 50"]
    load_checks_no_rule_missing_fields_raise_at_generation
      [of "[]" "[(''type'', PStr ''list'')]" mean_only counting_gens "PInt 50"]
  by simp

text \<open>
  A \<open>min_max\<close> rule without \<open>min\<close> is loaded, and fails only when a value is drawn.
\<close>

theorem incomplete_rule_is_loaded_counterexample:
  "load_housing_config (Document [(''area'', [(''type'', PStr ''min_max''), (''max'', PInt 300)])])
     = Inr [(''area'', [(''type'', PStr ''min_max''), (''max'', PInt 300)])] \<and>
   generate_housing_data_df mean_only [(''area'', [(''type'', PStr ''min_max''), (''max'', PInt 300)])]
     1 counting_gens = Inl (KeyError ''min'') \<and>
   load_housing_config (Document [(''area'', [(''type'', PStr ''range'')])])
     = Inr [(''area'', [(''type'', PStr ''range'')])]"
  by (simp add: generate_housing_data_df_def build_random_housing_column_value_def)




subsection \<open>Reproducibility\<close>

lemma same_resultE:
  assumes "rel_sum (=) (rel_prod (=) R) x y"
  obtains e where "x = Inl e" "y = Inl e"
  | v g h where "x = Inr (v, g)" "y = Inr (v, h)" "R g h"
proof (cases x)
  case (Inl e)
  with assms have "y = Inl e" by (cases y) simp_all
  with Inl that(1) show thesis by blast
next
  case (Inr p)
  with assms obtain q where q: "y = Inr q" "rel_prod (=) R p q" by (cases y) simp_all
  obtain v g where p: "p = (v, g)" by (cases p)
  obtain w h where qq: "q = (w, h)" by (cases q)
  from q(2) p qq have "v = w" "R g h" by simp_all
  with Inr q(1) p qq that(2) show thesis by blast
qed

lemma next_raw_same:
  assumes "same_draws g h"
  shows "fst (next_raw g) = fst (next_raw h) \<and> same_draws (snd (next_raw g)) (snd (next_raw h))"
proof -
  from assms have a: "\<And>k. raw g (pos g + k) = raw h (pos h + k)"
    by (simp add: same_draws_def)
  from a [of 0] have "raw g (pos g) = raw h (pos h)" by simp
  moreover have "\<And>k. raw g (Suc (pos g) + k) = raw h (Suc (pos h) + k)"
    using a [of "Suc k" for k] by simp
  ultimately show ?thesis by (simp add: next_raw_def same_draws_def)
qed

lemma randint_same:
  assumes "same_draws g h"
  shows "rel_sum (=) (rel_prod (=) same_draws) (randint a b g) (randint a b h)"
  using next_raw_same [OF assms]
  by (simp add: randint_def split_beta)

lemma choice_same:
  assumes "same_draws g h"
  shows "rel_sum (=) (rel_prod (=) same_draws) (choice xs g) (choice xs h)"
  using next_raw_same [OF assms]
  by (simp add: choice_def split_beta)

lemma get_randint_same:
  assumes "same_draws g h"
  shows "rel_sum (=) (rel_prod (=) same_draws)
           (get_randint_from_range_str str g) (get_randint_from_range_str str h)"
proof (cases "map_result py_int (split_on CHR ''-'' str)")
  case (Inl e)
  then show ?thesis by (simp add: get_randint_from_range_str_def)
next
  case (Inr range_list)
  show ?thesis
  proof (cases range_list)
    case Nil
    with Inr show ?thesis by (simp add: get_randint_from_range_str_def)
  next
    case (Cons x xs)
    from randint_same [OF assms, of "fold min xs x" "fold max xs x"]
    show ?thesis
    proof (cases rule: same_resultE)
      case (1 e)
      with Inr Cons show ?thesis by (simp add: get_randint_from_range_str_def)
    next
      case (2 v g1 h1)
      with Inr Cons show ?thesis by (simp add: get_randint_from_range_str_def)
    qed
  qed
qed

lemma row_loop_same:
  assumes "same_draws g h"
  shows "rel_sum (=) (rel_prod (=) same_draws)
           (row_loop config ks new_row g) (row_loop config ks new_row h)"
  using assms
proof (induction ks arbitrary: new_row g h)
  case Nil
  then show ?case by simp
next
  case (Cons k ks)
  show ?case
  proof (cases "map_of config k")
    case None
    then show ?thesis by simp
  next
    case (Some v)
    show ?thesis
    proof (cases v)
      case (PStr str)
      from get_randint_same [OF Cons.prems, of str] show ?thesis
      proof (cases rule: same_resultE)
        case (1 e)
        with Some PStr show ?thesis by simp
      next
        case (2 r g1 h1)
        with Some PStr Cons.IH [OF 2(3)] show ?thesis by simp
      qed
    next
      case (PList xs)
      from choice_same [OF Cons.prems, of xs] show ?thesis
      proof (cases rule: same_resultE)
        case (1 e)
        with Some PList show ?thesis by simp
      next
        case (2 r g1 h1)
        with Some PList Cons.IH [OF 2(3)] show ?thesis by simp
      qed
    qed (use Some Cons.IH [OF Cons.prems] in simp_all)
  qed
qed

lemma get_random_tier_config_same:
  assumes "same_draws g h"
  shows "rel_sum (=) (rel_prod (=) same_draws)
           (get_random_tier_config cfg g) (get_random_tier_config cfg h)"
  using choice_same [OF assms, of "map fst cfg"]
proof (cases rule: same_resultE)
  case (1 e)
  then show ?thesis by (simp add: get_random_tier_config_def)
next
  case (2 t g1 h1)
  then show ?thesis
    by (cases "map_of cfg t") (simp_all add: get_random_tier_config_def)
qed

lemma df_loop_same:
  assumes "same_draws g h"
  shows "rel_sum (=) (rel_prod (=) same_draws)
           (df_loop cfg n df_rows g) (df_loop cfg n df_rows h)"
  using assms
proof (induction n arbitrary: df_rows g h)
  case 0
  then show ?case by simp
next
  case (Suc n)
  from get_random_tier_config_same [OF Suc.prems, of cfg] show ?case
  proof (cases rule: same_resultE)
    case (1 e)
    then show ?thesis by simp
  next
    case (2 tc g1 h1)
    note t = 2
    from row_loop_same [OF t(3), of tc "map fst tc" "[]"] show ?thesis
    proof (cases rule: same_resultE)
      case (1 e)
      with t show ?thesis by (simp add: generate_one_row_random_house_data_def)
    next
      case (2 new_row g2 h2)
      with t Suc.IH [OF 2(3)] show ?thesis
        by (simp add: generate_one_row_random_house_data_def)
    qed
  qed
qed

lemma generate_housing_df_same:
  assumes "same_draws g h"
  shows "dataset_of (generate_housing_df cfg n g) = dataset_of (generate_housing_df cfg n h)"
  using df_loop_same [OF assms, of cfg "nat n" "[]"]
  by (cases rule: same_resultE) (simp_all add: generate_housing_df_def dataset_of_def)

lemma randint_val_same:
  assumes "same_draws g h"
  shows "rel_sum (=) (rel_prod (=) same_draws) (randint_val a b g) (randint_val a b h)"
  using randint_same [OF assms]
  by (simp add: randint_val_def split: option.splits pyval.splits)

lemma choice_val_same:
  assumes "same_draws g h"
  shows "rel_sum (=) (rel_prod (=) same_draws) (choice_val l g) (choice_val l h)"
  using choice_same [OF assms] next_raw_same [OF assms]
  by (cases l) (simp_all add: choice_val_def)

lemma build_same:
  assumes "same_gens s t"
  shows "rel_sum (=) (rel_prod (=) same_gens)
           (build_random_housing_column_value nr attribute s)
           (build_random_housing_column_value nr attribute t)"
proof -
  from assms have py: "same_draws (py_random s) (py_random t)"
    and np: "same_draws (np_random s) (np_random t)"
    by (simp_all add: same_gens_def)
  have lift_py: "rel_sum (=) (rel_prod (=) same_gens)
      (case x of Inl e \<Rightarrow> Inl e | Inr (v, g') \<Rightarrow> Inr (f v, s\<lparr>py_random := g'\<rparr>))
      (case y of Inl e \<Rightarrow> Inl e | Inr (v, g') \<Rightarrow> Inr (f v, t\<lparr>py_random := g'\<rparr>))"
    if "rel_sum (=) (rel_prod (=) same_draws) x y" for x y and f :: "'a \<Rightarrow> pyval"
    using that by (cases rule: same_resultE) (simp_all add: same_gens_def np)
  show ?thesis
  proof (cases "map_of attribute ''type''")
    case None
    then show ?thesis by (simp add: build_random_housing_column_value_def)
  next
    case (Some ty)
    consider (mm) "ty = PStr ''min_max''" | (bl) "ty = PStr ''bool''" | (ds) "ty = PStr ''dist''"
      | (ls) "ty = PStr ''list''"
      | (other) "ty \<noteq> PStr ''min_max''" "ty \<noteq> PStr ''bool''" "ty \<noteq> PStr ''dist''"
          "ty \<noteq> PStr ''list''"
      by blast
    then show ?thesis
    proof cases
      case mm
      show ?thesis
      proof (cases "map_of attribute ''min''")
        case None
        with Some mm show ?thesis by (simp add: build_random_housing_column_value_def)
      next
        case lo: (Some lo)
        show ?thesis
        proof (cases "map_of attribute ''max''")
          case None
          with Some mm lo show ?thesis by (simp add: build_random_housing_column_value_def)
        next
          case hi: (Some hi)
          from lift_py [OF randint_val_same [OF py, of lo hi], of PInt]
          show ?thesis using Some mm lo hi
            by (simp add: build_random_housing_column_value_def)
        qed
      qed
    next
      case bl
      from lift_py [OF choice_same [OF py, of "[PBool True, PBool False]"], of "\<lambda>v. v"]
      show ?thesis using Some bl
        by (simp add: build_random_housing_column_value_def)
    next
      case ds
      show ?thesis
      proof (cases "map_of attribute ''mean''")
        case None
        with Some ds show ?thesis by (simp add: build_random_housing_column_value_def)
      next
        case mean: (Some mean)
        show ?thesis
        proof (cases "map_of attribute ''sd''")
          case None
          with Some ds mean show ?thesis by (simp add: build_random_housing_column_value_def)
        next
          case sd: (Some sd)
          obtain z gs where ns: "next_raw (np_random s) = (z, gs)"
            by (cases "next_raw (np_random s)")
          obtain z' gt where nt: "next_raw (np_random t) = (z', gt)"
            by (cases "next_raw (np_random t)")
          from next_raw_same [OF np] ns nt have zz: "z' = z" and sd': "same_draws gs gt"
            by simp_all
          show ?thesis
          proof (cases "nr mean sd z")
            case (Inl e)
            with Some ds mean sd ns nt zz show ?thesis
              by (simp add: build_random_housing_column_value_def)
          next
            case (Inr v)
            with Some ds mean sd ns nt zz sd' py show ?thesis
              by (simp add: build_random_housing_column_value_def same_gens_def)
          qed
        qed
      qed
    next
      case ls
      show ?thesis
      proof (cases "map_of attribute ''list''")
        case None
        with Some ls show ?thesis by (simp add: build_random_housing_column_value_def)
      next
        case l: (Some l)
        from lift_py [OF choice_val_same [OF py, of l], of "\<lambda>v. v"]
        show ?thesis using Some ls l
          by (simp add: build_random_housing_column_value_def)
      qed
    next
      case other
      with Some assms show ?thesis by (simp add: build_random_housing_column_value_def)
    qed
  qed
qed

lemma sample_column_same:
  assumes "same_gens s t"
  shows "rel_sum (=) (rel_prod (=) same_gens)
           (sample_column nr cc n s) (sample_column nr cc n t)"
  using assms
proof (induction n arbitrary: s t)
  case 0
  then show ?case by simp
next
  case (Suc n)
  from build_same [OF Suc.prems, of nr cc] show ?case
  proof (cases rule: same_resultE)
    case (1 e)
    then show ?thesis by simp
  next
    case (2 v s1 t1)
    note b = 2
    from Suc.IH [OF b(3)] show ?thesis
    proof (cases rule: same_resultE)
      case (1 e)
      with b show ?thesis by simp
    next
      case (2 vs s2 t2)
      with b show ?thesis by simp
    qed
  qed
qed

lemma cols_loop_same:
  assumes "same_gens s t"
  shows "rel_sum (=) (rel_prod (=) same_gens)
           (cols_loop nr cfg ks n acc s) (cols_loop nr cfg ks n acc t)"
  using assms
proof (induction ks arbitrary: acc s t)
  case Nil
  then show ?case by simp
next
  case (Cons k ks)
  show ?case
  proof (cases "map_of cfg k")
    case None
    then show ?thesis by simp
  next
    case (Some cc)
    from sample_column_same [OF Cons.prems, of nr cc n] show ?thesis
    proof (cases rule: same_resultE)
      case (1 e)
      with Some show ?thesis by simp
    next
      case (2 vs s1 t1)
      with Some Cons.IH [OF 2(3)] show ?thesis by simp
    qed
  qed
qed

lemma generate_housing_data_df_same:
  assumes "same_gens s t"
  shows "dataset_of (generate_housing_data_df nr cfg n s)
       = dataset_of (generate_housing_data_df nr cfg n t)"
  using cols_loop_same [OF assms, of nr cfg "map fst cfg" "nat n" "[]"]
  by (cases rule: same_resultE)
    (simp_all add: generate_housing_data_df_def dataset_of_def split: sum.splits)

text \<open>
  Claim C7. Two runs of a builder with the same configuration and the same number
  of rows, on generators that deliver the same draws from the start of the run (which
  is what one seed gives), end alike: the same exception, or the same data frame, with
  the same rows and values in the same order. The flat builder draws from Python's
  and from NumPy's generator, and both must agree.
\<close>

theorem same_draws_give_the_same_dataset:
  "(same_draws g h \<longrightarrow>
      dataset_of (generate_housing_df cfg n g) = dataset_of (generate_housing_df cfg n h)) \<and>
   (same_gens s t \<longrightarrow>
      dataset_of (generate_housing_data_df nr fcfg n s)
        = dataset_of (generate_housing_data_df nr fcfg n t))"
  using generate_housing_df_same generate_housing_data_df_same by blast

lemma same_draws_replayed: "same_draws counting_rng replayed_rng"
  by (simp add: same_draws_def counting_rng_def replayed_rng_def)

theorem same_draws_give_the_same_dataset_witness:
  "same_draws counting_rng replayed_rng \<and>
   dataset_of (generate_housing_df [(''tier-1'', tier_1)] 3 counting_rng)
     = dataset_of (generate_housing_df [(''tier-1'', tier_1)] 3 replayed_rng) \<and>
   same_gens counting_gens \<lparr>py_random = replayed_rng, np_random = counting_rng\<rparr> \<and>
   dataset_of (generate_housing_data_df mean_only flat_config 3 counting_gens)
     = dataset_of (generate_housing_data_df mean_only flat_config 3
         \<lparr>py_random = replayed_rng, np_random = counting_rng\<rparr>)"
proof -
  have sg: "same_gens counting_gens \<lparr>py_random = replayed_rng, np_random = counting_rng\<rparr>"
    using same_draws_replayed by (simp add: same_gens_def counting_gens_def same_draws_def)
  from same_draws_give_the_same_dataset
    [of counting_rng replayed_rng "[(''tier-1'', tier_1)]" 3 counting_gens
      "\<lparr>py_random = replayed_rng, np_random = counting_rng\<rparr>" mean_only flat_config]
    same_draws_replayed sg
  show ?thesis by simp
qed

subsection \<open>The database notebook\<close>

lemma market_id_of_row_inject:
  "inj_on (\<lambda>i. Some (PStr (''prop_'' @ str_nat i))) A"
  by (rule inj_onI) (auto dest: str_nat_inject)

lemma map_of_update_rows:
  "length rows = length vs \<Longrightarrow>
   map (\<lambda>r. map_of r k) (map (\<lambda>(r, v). AList.update k v r) (zip rows vs)) = map Some vs"
proof (induction rows arbitrary: vs)
  case Nil
  then show ?case by simp
next
  case (Cons r rows)
  then obtain v vs' where "vs = v # vs'" by (cases vs) auto
  with Cons show ?case by (simp add: update_conv')
qed

text \<open>
  Claim C9. The data frame handed to the database has a \<open>market_id\<close> column whose value
  in row \<open>i\<close> is \<open>"prop_"\<close> followed by the decimal \<open>i\<close>, for \<open>i\<close> from 0 to the number of
  rows less one, so the identifiers of different rows differ.
\<close>

theorem market_id_is_prop_and_the_row_index:
  "\<exists>df. add_market_id csv_df = Inr df \<and>
     length (body df) = min 20 (length (body csv_df)) \<and>
     ''market_id'' \<in> set (columns df) \<and>
     map (\<lambda>r. map_of r ''market_id'') (body df)
       = map (\<lambda>i. Some (PStr (''prop_'' @ str_nat i))) [0..<length (body df)] \<and>
     distinct (map (\<lambda>r. map_of r ''market_id'') (body df))"
proof -
  let ?rows = "take 20 (body csv_df)"
  let ?n = "length ?rows"
  let ?ids = "map (\<lambda>i. PStr (''prop_'' @ str_nat i)) [0..<?n]"
  let ?df = "\<lparr>columns = add_keys [''market_id''] (columns csv_df),
              body = map (\<lambda>(r, v). AList.update ''market_id'' v r) (zip ?rows ?ids)\<rparr>"
  have ids: "market_ids (df_head 20 csv_df) = ?ids"
    by (simp add: market_ids_def df_head_def)
  have res: "add_market_id csv_df = Inr ?df"
    by (simp add: add_market_id_def Let_def df_setitem_def ids) (simp add: df_head_def)
  have len: "length (body ?df) = ?n" by simp
  have col: "''market_id'' \<in> set (columns ?df)"
    by (simp add: add_keys_def)
  have "map (\<lambda>r. map_of r ''market_id'') (body ?df) = map Some ?ids"
    using map_of_update_rows [of ?rows ?ids "''market_id''"] by simp
  then have vals: "map (\<lambda>r. map_of r ''market_id'') (body ?df)
      = map (\<lambda>i. Some (PStr (''prop_'' @ str_nat i))) [0..<length (body ?df)]"
    by (simp add: comp_def)
  have "distinct (map (\<lambda>i. Some (PStr (''prop_'' @ str_nat i))) [0..<length (body ?df)])"
    by (simp only: distinct_map distinct_upt market_id_of_row_inject simp_thms)
  with vals have dist: "distinct (map (\<lambda>r. map_of r ''market_id'') (body ?df))"
    by (simp only:)
  have "length (body ?df) = min 20 (length (body csv_df))"
    by (simp add: min.commute)
  with res col vals dist show ?thesis by blast
qed

text \<open>
  Claim C8. When executing the drop statement raises \<open>OperationalError\<close>, \<open>drop_tables\<close>
  prints the error and returns normally: the error does not reach the caller.
\<close>

theorem drop_tables_catches_operational_error:
  assumes "execute (''drop table '' @ table_name) db = (Some (OperationalError e), db')"
  shows "drop_tables execute table_name (db, out) = Inr (db', out @ [e])"
  using assms by (simp add: drop_tables_def)

theorem drop_tables_catches_operational_error_witness:
  "(\<lambda>q (d::nat). (Some (OperationalError ''no such table: housing_market''), d))
      (''drop table '' @ ''housing_market'') 0
     = (Some (OperationalError ''no such table: housing_market''), 0) \<and>
   drop_tables (\<lambda>q (d::nat). (Some (OperationalError ''no such table: housing_market''), d))
      ''housing_market'' (0, []) = Inr (0, [''no such table: housing_market''])"
  using drop_tables_catches_operational_error
    [of "\<lambda>q (d::nat). (Some (OperationalError ''no such table: housing_market''), d)"
        "''housing_market''" 0 "''no such table: housing_market''" 0 "[]"]
  by simp

end
